theory Spec2Isabelle
  imports Main "HOL-Library.Word"
begin

section \<open>Go strings, runes and the Unicode tables\<close>

text \<open>
  A Go string is a sequence of bytes; every string this program handles is the
  \<^verbatim>\<open>Body\<close> field filled by \<^verbatim>\<open>encoding/json\<close>, which always
  delivers well-formed UTF-8 (it substitutes U+FFFD for anything else). Such a string is
  represented by the sequence of its code points: this is what \<^verbatim>\<open>range s\<close>,
  \<^verbatim>\<open>strings.ToLower\<close> and \<^verbatim>\<open>unicode.IsPunct\<close> see, and
  \<^verbatim>\<open>==\<close> on the bytes is equality of the code point sequences. The builtin
  \<^verbatim>\<open>len\<close> counts the bytes of the UTF-8 encoding, not the code points.
\<close>

type_synonym rune = nat
type_synonym gostring = "rune list"

definition str :: "string \<Rightarrow> gostring" where
  "str s = map of_char s"

text \<open>\<^verbatim>\<open>utf8.RuneLen\<close>: the number of bytes that encode a code point.\<close>

definition utf8_RuneLen :: "rune \<Rightarrow> nat" where
  "utf8_RuneLen r =
     (if r < 0x80 then 1 else if r < 0x800 then 2 else if r < 0x10000 then 3 else 4)"

text \<open>The builtin \<^verbatim>\<open>len\<close> on a string: its length in bytes.\<close>

definition len :: "gostring \<Rightarrow> nat" where
  "len s = sum_list (map utf8_RuneLen s)"

text \<open>\<^verbatim>\<open>utf8.RuneCountInString\<close>: the number of characters of a string.\<close>

definition utf8_RuneCountInString :: "gostring \<Rightarrow> nat" where
  "utf8_RuneCountInString s = length s"

text \<open>
  The tables of package \<^verbatim>\<open>unicode\<close> depend on the Unicode version of the Go
  release and are not part of this repository. Their content above ASCII is a parameter:
  \<open>LowerCase\<close> is the lower case mapping of \<^verbatim>\<open>unicode.CaseRanges\<close> and
  \<open>Punct\<close> is membership in category P (\<^verbatim>\<open>unicode.Punct\<close>, and the
  upper half of the Latin-1 \<^verbatim>\<open>properties\<close> array). Both are consulted only
  for code points above \<^verbatim>\<open>unicode.MaxASCII\<close>; on ASCII the library's
  behaviour is fixed and written out below.
\<close>

record unicode_tables =
  LowerCase :: "rune \<Rightarrow> rune"
  Punct :: "rune \<Rightarrow> bool"

text \<open>
  \<^verbatim>\<open>unicode.ToLower\<close>:
  \<^verbatim>\<open>if r <= MaxASCII { if 'A' <= r && r <= 'Z' { r += 'a' - 'A' }; return r }; return To(LowerCase, r)\<close>
\<close>

definition unicode_ToLower :: "unicode_tables \<Rightarrow> rune \<Rightarrow> rune" where
  "unicode_ToLower U r =
     (if r \<le> 0x7F then (if 0x41 \<le> r \<and> r \<le> 0x5A then r + 0x20 else r)
      else LowerCase U r)"

text \<open>
  \<^verbatim>\<open>unicode.IsPunct\<close>. The ASCII code points of category P are
  \<^verbatim>\<open>! " # % & ' ( ) * , - . / : ; ? @ [ \ ] _ { }\<close>; the other ASCII signs
  (\<^verbatim>\<open>$ + < = > ^ ` | ~\<close>) are symbols, not punctuation.
\<close>

definition ascii_punct :: "rune list" where
  "ascii_punct =
     [0x21, 0x22, 0x23, 0x25, 0x26, 0x27, 0x28, 0x29, 0x2A, 0x2C, 0x2D, 0x2E, 0x2F,
      0x3A, 0x3B, 0x3F, 0x40, 0x5B, 0x5C, 0x5D, 0x5F, 0x7B, 0x7D]"

definition unicode_IsPunct :: "unicode_tables \<Rightarrow> rune \<Rightarrow> bool" where
  "unicode_IsPunct U r = (if r \<le> 0x7F then r \<in> set ascii_punct else Punct U r)"

text \<open>
  \<^verbatim>\<open>strings.ToLower\<close> maps \<^verbatim>\<open>unicode.ToLower\<close> over the code
  points of the string (for an ASCII string it takes a byte-wise shortcut with the same
  result).
\<close>

definition strings_ToLower :: "unicode_tables \<Rightarrow> gostring \<Rightarrow> gostring" where
  "strings_ToLower U s = map (unicode_ToLower U) s"

text \<open>
  \<^verbatim>\<open>strings.Split(s, sep)\<close> for a separator of one character: the pieces
  between the occurrences of the separator, empty pieces included. The result is never
  empty: the empty string gives one empty piece.
\<close>

fun strings_Split :: "gostring \<Rightarrow> rune \<Rightarrow> gostring list" where
  "strings_Split [] sep = [[]]"
| "strings_Split (c # s) sep =
     (if c = sep then [] # strings_Split s sep
      else (case strings_Split s sep of
              [] \<Rightarrow> [[c]]
            | w # ws \<Rightarrow> (c # w) # ws))"

text \<open>\<^verbatim>\<open>strings.Join(elems, sep)\<close>.\<close>

fun strings_Join :: "gostring list \<Rightarrow> gostring \<Rightarrow> gostring" where
  "strings_Join [] sep = []"
| "strings_Join [w] sep = w"
| "strings_Join (w # ws) sep = w @ sep @ strings_Join ws sep"

section \<open>The word filter\<close>

text \<open>
  \<^verbatim>\<open>func hasPunctuation(s string) bool\<close>: the loop over the code points of
  \<open>s\<close> returns at the first punctuation character.
\<close>

fun hasPunctuation :: "unicode_tables \<Rightarrow> gostring \<Rightarrow> bool" where
  "hasPunctuation U [] = False"
| "hasPunctuation U (r # s) = (if unicode_IsPunct U r then True else hasPunctuation U s)"

text \<open>
  An error as far as \<^verbatim>\<open>err.Error()\<close> and the comparison with
  \<^verbatim>\<open>nil\<close> show it: the text given to \<^verbatim>\<open>errors.New\<close>. The
  identity of an error value (\<^verbatim>\<open>errors.New\<close> returns a new pointer at each
  call) is modelled apart, by \<open>error_value\<close> below.
\<close>

datatype go_error = errors_New string

text \<open>A run-time panic: an index out of the range of a slice.\<close>

datatype panic = IndexOutOfRange nat nat

definition banned :: "gostring list" where
  "banned = [str ''kerfuffle'', str ''sharbert'', str ''fornax'']"

definition mask :: gostring where
  "mask = str ''****''"

text \<open>
  The inner loop of \<^verbatim>\<open>processWords\<close>,
  \<^verbatim>\<open>for _, banned := range banned\<close>, at position \<open>i\<close> of the outer loop. The
  state is the slice \<open>originalWords\<close> and the flag \<open>foundBadWord\<close>. The assignment
  \<^verbatim>\<open>originalWords[i] = "****"\<close> panics when \<open>i\<close> is not an index of the slice.
\<close>

fun processWords_inner ::
  "unicode_tables \<Rightarrow> nat \<Rightarrow> gostring \<Rightarrow> gostring list \<Rightarrow> gostring list \<times> bool \<Rightarrow>
   panic + gostring list \<times> bool" where
  "processWords_inner U i word [] st = Inr st"
| "processWords_inner U i word (b # bs) (originalWords, foundBadWord) =
     (if b = word then
        (if \<not> hasPunctuation U word then
           (if i < length originalWords
            then processWords_inner U i word bs (originalWords[i := mask], True)
            else Inl (IndexOutOfRange i (length originalWords)))
         else processWords_inner U i word bs (originalWords, foundBadWord))
      else processWords_inner U i word bs (originalWords, foundBadWord))"

text \<open>The outer loop, \<^verbatim>\<open>for i, word := range lowerWords\<close>, from index \<open>i\<close> on.\<close>

fun processWords_outer ::
  "unicode_tables \<Rightarrow> nat \<Rightarrow> gostring list \<Rightarrow> gostring list \<times> bool \<Rightarrow>
   panic + gostring list \<times> bool" where
  "processWords_outer U i [] st = Inr st"
| "processWords_outer U i (word # lowerWords) st =
     (case processWords_inner U i word banned st of
        Inl p \<Rightarrow> Inl p
      | Inr st' \<Rightarrow> processWords_outer U (Suc i) lowerWords st')"

text \<open>\<^verbatim>\<open>func processWords(input string) (string, error)\<close>; \<open>None\<close> is the nil error.\<close>

definition processWords :: "unicode_tables \<Rightarrow> gostring \<Rightarrow> panic + gostring \<times> go_error option" where
  "processWords U input =
     (let lowerWords = strings_Split (strings_ToLower U input) 0x20;
          originalWords = strings_Split input 0x20
      in case processWords_outer U 0 lowerWords (originalWords, False) of
           Inl p \<Rightarrow> Inl p
         | Inr (originalWords', foundBadWord) \<Rightarrow>
             (let input' = strings_Join originalWords' [0x20]
              in if foundBadWord
                 then Inr (input', Some (errors_New ''Bad word found in text''))
                 else Inr (input', None)))"

section \<open>The handler of \<^verbatim>\<open>POST /api/validate_chirp\<close>\<close>

text \<open>The structs of the JSON boundary.\<close>

record parameters =
  Body :: gostring

record errorReturnVals =
  Error :: gostring

record cleanedReturnVals =
  CleanedBody :: gostring

text \<open>
  \<^verbatim>\<open>decoder.Decode(&params)\<close> belongs to \<^verbatim>\<open>encoding/json\<close>: a
  request is known by what decoding its body returns, an error or the filled struct.
\<close>

record http_Request =
  Decode :: "go_error + parameters"

text \<open>
  \<^verbatim>\<open>json.Marshal\<close> of the two response structs: an object with the one field
  named by the struct tag. Marshalling a struct of strings does not fail.
\<close>

datatype json = JSON_object "(string \<times> gostring) list"

definition json_Marshal_errorReturnVals :: "errorReturnVals \<Rightarrow> go_error + json" where
  "json_Marshal_errorReturnVals v = Inr (JSON_object [(''error'', Error v)])"

definition json_Marshal_cleanedReturnVals :: "cleanedReturnVals \<Rightarrow> go_error + json" where
  "json_Marshal_cleanedReturnVals v = Inr (JSON_object [(''cleaned_body'', CleanedBody v)])"

text \<open>
  The \<^verbatim>\<open>http.ResponseWriter\<close>: the header map, the status code once it is
  written, and the data written to the body. \<^verbatim>\<open>WriteHeader\<close> takes effect
  once; \<^verbatim>\<open>Write\<close> before any \<^verbatim>\<open>WriteHeader\<close> sends status 200.
\<close>

record http_ResponseWriter =
  Header :: "string \<rightharpoonup> string"
  statusCode :: "nat option"
  written :: "json list"

definition new_ResponseWriter :: http_ResponseWriter where
  "new_ResponseWriter = \<lparr>Header = Map.empty, statusCode = None, written = []\<rparr>"

definition Header_Set :: "string \<Rightarrow> string \<Rightarrow> http_ResponseWriter \<Rightarrow> http_ResponseWriter" where
  "Header_Set k v w = w\<lparr>Header := (Header w)(k \<mapsto> v)\<rparr>"

definition WriteHeader :: "nat \<Rightarrow> http_ResponseWriter \<Rightarrow> http_ResponseWriter" where
  "WriteHeader code w = (if statusCode w = None then w\<lparr>statusCode := Some code\<rparr> else w)"

definition Write :: "json \<Rightarrow> http_ResponseWriter \<Rightarrow> http_ResponseWriter" where
  "Write dat w =
     (let w' = WriteHeader 200 w
      in w'\<lparr>written := written w' @ [dat]\<rparr>)"

text \<open>
  \<^verbatim>\<open>func chirpHandler(w http.ResponseWriter, r *http.Request)\<close>. The calls of
  \<^verbatim>\<open>log.Printf\<close> are left out. A panic of \<^verbatim>\<open>processWords\<close>
  leaves the handler at once.
\<close>

definition chirpHandler ::
  "unicode_tables \<Rightarrow> http_ResponseWriter \<Rightarrow> http_Request \<Rightarrow> panic + http_ResponseWriter" where
  "chirpHandler U w r =
     (case Decode r of
        Inl err \<Rightarrow> Inr (WriteHeader 500 w)
      | Inr params \<Rightarrow>
          if len (Body params) > 140 then
            (let respBody = \<lparr>Error = str ''Chirp is too long''\<rparr>
             in case json_Marshal_errorReturnVals respBody of
                  Inl err \<Rightarrow> Inr (WriteHeader 500 w)
                | Inr dat \<Rightarrow>
                    Inr (Write dat (WriteHeader 400
                          (Header_Set ''Content-Type'' ''application/json'' w))))
          else
            (case processWords U (Body params) of
               Inl p \<Rightarrow> Inl p
             | Inr (processedWords, _) \<Rightarrow>
                 (let cleanedBody = \<lparr>CleanedBody = processedWords\<rparr>
                  in case json_Marshal_cleanedReturnVals cleanedBody of
                       Inl err \<Rightarrow> Inr (WriteHeader 500 w)
                     | Inr dat \<Rightarrow>
                         Inr (Write dat (WriteHeader 200
                               (Header_Set ''Content-Type'' ''application/json'' w))))))"

section \<open>The metrics middleware\<close>

text \<open>
  \<^verbatim>\<open>apiConfig\<close>: \<open>fileserverHits\<close> is an \<^verbatim>\<open>atomic.Int32\<close>, a 32-bit
  counter whose \<^verbatim>\<open>Add\<close> wraps around. The database handles are left out.
\<close>

record apiConfig =
  fileserverHits :: "32 word"
  platform :: gostring

definition atomic_Int32_Add :: "32 word \<Rightarrow> apiConfig \<Rightarrow> apiConfig" where
  "atomic_Int32_Add delta cfg = cfg\<lparr>fileserverHits := fileserverHits cfg + delta\<rparr>"

text \<open>
  A handler is called with the response writer and the request, runs on the shared
  \<^verbatim>\<open>apiConfig\<close> and has an outcome: whatever it does to the writer and to the
  configuration, or a panic. The middleware is written for every handler, so the three
  types are left open.
\<close>

type_synonym ('w, 'r, 'o) http_Handler = "'w \<Rightarrow> 'r \<Rightarrow> apiConfig \<Rightarrow> 'o"

text \<open>\<^verbatim>\<open>func (cfg *apiConfig) middlewareMetricsInc(next http.Handler) http.Handler\<close>\<close>

definition middlewareMetricsInc :: "('w, 'r, 'o) http_Handler \<Rightarrow> ('w, 'r, 'o) http_Handler" where
  "middlewareMetricsInc next =
     (\<lambda>w r cfg.
        let cfg' = atomic_Int32_Add 1 cfg
        in next w r cfg')"

section \<open>Assumptions on the tables, and a sample of them\<close>

text \<open>
  No character other than the space has the space as its lower case. The tables of every
  Unicode version have this property; it is the only fact about them that the results
  below rely on, and only where it is named as a hypothesis.
\<close>

definition case_table_ok :: "unicode_tables \<Rightarrow> bool" where
  "case_table_ok U = (\<forall>r. 0x7F < r \<longrightarrow> LowerCase U r \<noteq> 0x20)"

text \<open>
  Punctuation has no case: the lower case of a punctuation character is the character
  itself. This too holds of the tables of every Unicode version.
\<close>

definition punct_caseless :: "unicode_tables \<Rightarrow> bool" where
  "punct_caseless U = (\<forall>r. 0x7F < r \<and> Punct U r \<longrightarrow> LowerCase U r = r)"

text \<open>
  An excerpt of the tables for the examples: the capital letters of Latin-1 (U+00C0 to
  U+00DE without the multiplication sign U+00D7) and the Kelvin sign U+212A, whose lower
  case is the ASCII letter k; the inverted marks U+00A1 and U+00BF and the dashes U+2013
  and U+2014 as punctuation.
\<close>

definition sample_tables :: unicode_tables where
  "sample_tables =
     \<lparr>LowerCase = (\<lambda>r. if 0xC0 \<le> r \<and> r \<le> 0xDE \<and> r \<noteq> 0xD7 then r + 0x20
                        else if r = 0x212A then 0x6B else r),
      Punct = (\<lambda>r. r = 0xA1 \<or> r = 0xBF \<or> r = 0x2013 \<or> r = 0x2014)\<rparr>"

section \<open>The word filter without its punctuation guard\<close>

text \<open>
  The two loops of \<^verbatim>\<open>processWords\<close> with the test
  \<^verbatim>\<open>if !hasPunctuation(word)\<close> taken out, to compare with the loops as they are.
\<close>

fun unguarded_inner ::
  "nat \<Rightarrow> gostring \<Rightarrow> gostring list \<Rightarrow> gostring list \<times> bool \<Rightarrow> panic + gostring list \<times> bool" where
  "unguarded_inner i word [] st = Inr st"
| "unguarded_inner i word (b # bs) (originalWords, foundBadWord) =
     (if b = word then
        (if i < length originalWords
         then unguarded_inner i word bs (originalWords[i := mask], True)
         else Inl (IndexOutOfRange i (length originalWords)))
      else unguarded_inner i word bs (originalWords, foundBadWord))"

fun unguarded_outer ::
  "nat \<Rightarrow> gostring list \<Rightarrow> gostring list \<times> bool \<Rightarrow> panic + gostring list \<times> bool" where
  "unguarded_outer i [] st = Inr st"
| "unguarded_outer i (word # lowerWords) st =
     (case unguarded_inner i word banned st of
        Inl p \<Rightarrow> Inl p
      | Inr st' \<Rightarrow> unguarded_outer (Suc i) lowerWords st')"

definition processWords_unguarded ::
  "unicode_tables \<Rightarrow> gostring \<Rightarrow> panic + gostring \<times> go_error option" where
  "processWords_unguarded U input =
     (let lowerWords = strings_Split (strings_ToLower U input) 0x20;
          originalWords = strings_Split input 0x20
      in case unguarded_outer 0 lowerWords (originalWords, False) of
           Inl p \<Rightarrow> Inl p
         | Inr (originalWords', foundBadWord) \<Rightarrow>
             (let input' = strings_Join originalWords' [0x20]
              in if foundBadWord
                 then Inr (input', Some (errors_New ''Bad word found in text''))
                 else Inr (input', None)))"

section \<open>Error values and their identity\<close>






section \<open>Splitting and joining\<close>

lemma Split_not_Nil: "strings_Split s c \<noteq> []"
  by (induction s) (auto split: list.splits)

lemma Join_Cons: "ws \<noteq> [] \<Longrightarrow> strings_Join (w # ws) sep = w @ sep @ strings_Join ws sep"
  by (cases ws) simp_all

lemma Join_Split: "strings_Join (strings_Split s c) [c] = s"
proof (induction s)
  case Nil
  show ?case by simp
next
  case (Cons x s)
  show ?case
  proof (cases "x = c")
    case True
    with Cons show ?thesis by (simp add: Join_Cons Split_not_Nil)
  next
    case False
    obtain w ws where ws: "strings_Split s c = w # ws"
      using Split_not_Nil [of s c] by (cases "strings_Split s c") auto
    show ?thesis
    proof (cases ws)
      case Nil
      with ws Cons False show ?thesis by simp
    next
      case (Cons v vs)
      with ws Cons.IH False show ?thesis by simp
    qed
  qed
qed

lemma Split_map:
  assumes "\<And>x. (f x = c) = (x = c)"
  shows "strings_Split (map f s) c = map (map f) (strings_Split s c)"
  using assms by (induction s) (auto split: list.splits simp: Split_not_Nil)

lemma Split_no_sep: "w \<in> set (strings_Split s c) \<Longrightarrow> c \<notin> set w"
  by (induction s arbitrary: w) (auto split: if_splits list.splits)

lemma Split_no_sep_word: "c \<notin> set w \<Longrightarrow> strings_Split w c = [w]"
  by (induction w) (auto split: list.splits)

lemma Split_append_sep:
  "c \<notin> set w \<Longrightarrow> strings_Split (w @ c # s) c = w # strings_Split s c"
  by (induction w) (auto split: list.splits)

lemma Split_Join:
  "ws \<noteq> [] \<Longrightarrow> (\<And>w. w \<in> set ws \<Longrightarrow> c \<notin> set w) \<Longrightarrow> strings_Split (strings_Join ws [c]) c = ws"
proof (induction ws "[c]" rule: strings_Join.induct)
  case 1
  then show ?case by simp
next
  case (2 w)
  then show ?case by (simp add: Split_no_sep_word)
next
  case (3 w v vs)
  then show ?case by (simp add: Split_append_sep)
qed


section \<open>The loops of the word filter in closed form\<close>

lemma banned_no_punct: "b \<in> set banned \<Longrightarrow> \<not> hasPunctuation U b"
  by (auto simp add: banned_def str_def unicode_IsPunct_def ascii_punct_def)

lemma inner_closed:
  "processWords_inner U i word bs (ow, f) =
     (if word \<in> set bs \<and> \<not> hasPunctuation U word
      then (if i < length ow then Inr (ow[i := mask], True)
            else Inl (IndexOutOfRange i (length ow)))
      else Inr (ow, f))"
  by (induction bs arbitrary: ow f) auto

lemma inner_banned:
  "processWords_inner U i word banned (ow, f) =
     (if word \<in> set banned
      then (if i < length ow then Inr (ow[i := mask], True)
            else Inl (IndexOutOfRange i (length ow)))
      else Inr (ow, f))"
  by (simp add: inner_closed banned_no_punct)

lemma unguarded_inner_closed:
  "unguarded_inner i word bs (ow, f) =
     (if word \<in> set bs
      then (if i < length ow then Inr (ow[i := mask], True)
            else Inl (IndexOutOfRange i (length ow)))
      else Inr (ow, f))"
  by (induction bs arbitrary: ow f) auto

lemma inner_unguarded: "processWords_inner U i word banned st = unguarded_inner i word banned st"
  by (cases st) (simp add: inner_banned unguarded_inner_closed)

lemma outer_unguarded: "processWords_outer U i lws st = unguarded_outer i lws st"
  by (induction lws arbitrary: i st) (simp_all add: inner_unguarded split: sum.splits)

lemma outer_clean:
  "(\<And>w. w \<in> set lws \<Longrightarrow> w \<notin> set banned) \<Longrightarrow> processWords_outer U i lws st = Inr st"
  by (induction lws arbitrary: i st) (auto simp: inner_banned split: sum.splits prod.splits)

lemma outer_closed:
  "i + length lws \<le> length ow \<Longrightarrow>
   processWords_outer U i lws (ow, f) =
     Inr (take i ow @ map2 (\<lambda>l t. if l \<in> set banned then mask else t) lws (drop i ow)
            @ drop (i + length lws) ow,
          f \<or> (\<exists>l \<in> set lws. l \<in> set banned))"
proof (induction lws arbitrary: i ow f)
  case Nil
  then show ?case by simp
next
  case (Cons l lws)
  then have i: "i < length ow" by simp
  then obtain t ts where d: "drop i ow = t # ts"
    by (cases "drop i ow") auto
  have ts: "ts = drop (Suc i) ow"
    using d by (metis drop_Suc list.sel(3) tl_drop)
  show ?case
  proof (cases "l \<in> set banned")
    case True
    have "Suc i + length lws \<le> length (ow[i := mask])" using Cons.prems by simp
    from Cons.IH [OF this] True i d ts show ?thesis
      by (simp add: inner_banned take_Suc_conv_app_nth upd_conv_take_nth_drop add.commute)
  next
    case False
    have "Suc i + length lws \<le> length ow" using Cons.prems by simp
    from Cons.IH [OF this] False i d ts show ?thesis
      by (simp add: inner_banned take_Suc_conv_app_nth Cons_nth_drop_Suc [symmetric] add.commute)
  qed
qed


lemma ToLower_space: "case_table_ok U \<Longrightarrow> (unicode_ToLower U x = 0x20) = (x = 0x20)"
  by (auto simp add: case_table_ok_def unicode_ToLower_def)

lemma lowerWords_map:
  "case_table_ok U \<Longrightarrow>
   strings_Split (strings_ToLower U s) 0x20 = map (strings_ToLower U) (strings_Split s 0x20)"
  unfolding strings_ToLower_def
  by (rule Split_map) (rule ToLower_space)

lemma map2_map_same: "map2 f (map g xs) xs = map (\<lambda>x. f (g x) x) xs"
  by (induction xs) simp_all

lemma processWords_closed:
  assumes "case_table_ok U"
  shows "processWords U input =
     Inr (strings_Join
            (map (\<lambda>t. if strings_ToLower U t \<in> set banned then mask else t)
               (strings_Split input 0x20)) [0x20],
          if \<exists>t \<in> set (strings_Split input 0x20). strings_ToLower U t \<in> set banned
          then Some (errors_New ''Bad word found in text'') else None)"
proof -
  let ?ws = "strings_Split input 0x20"
  have "processWords_outer U 0 (map (strings_ToLower U) ?ws) (?ws, False) =
     Inr (map (\<lambda>t. if strings_ToLower U t \<in> set banned then mask else t) ?ws,
          \<exists>t \<in> set ?ws. strings_ToLower U t \<in> set banned)"
    by (simp add: outer_closed map2_map_same)
  then show ?thesis
    by (simp add: processWords_def lowerWords_map [OF assms])
qed

lemma processWords_clean:
  assumes "\<And>w. w \<in> set (strings_Split (strings_ToLower U input) 0x20) \<Longrightarrow> w \<notin> set banned"
  shows "processWords U input = Inr (input, None)"
  using outer_clean [of "strings_Split (strings_ToLower U input) 0x20" U 0, OF assms]
  by (simp add: processWords_def Join_Split)

lemma processWords_unguarded_eq: "processWords U input = processWords_unguarded U input"
  by (simp add: processWords_def processWords_unguarded_def outer_unguarded)

section \<open>Lengths\<close>

lemma len_append: "len (a @ b) = len a + len b"
  by (simp add: len_def)

lemma length_le_len: "length s \<le> len s"
  by (induction s) (auto simp add: len_def utf8_RuneLen_def)

lemma ToLower_mask: "strings_ToLower U mask = mask"
  by (simp add: strings_ToLower_def mask_def str_def unicode_ToLower_def)

lemma mask_not_banned: "mask \<notin> set banned"
  by (simp add: mask_def banned_def str_def)

lemma mask_no_space: "0x20 \<notin> set mask"
  by (simp add: mask_def str_def)

lemma len_mask: "len mask = 4"
  by (simp add: mask_def str_def len_def utf8_RuneLen_def)

lemma banned_length: "b \<in> set banned \<Longrightarrow> 6 \<le> length b"
  by (auto simp add: banned_def str_def)

lemma len_redact:
  "len (if strings_ToLower U t \<in> set banned then mask else t) \<le> len t"
proof (cases "strings_ToLower U t \<in> set banned")
  case True
  then have "6 \<le> length (strings_ToLower U t)" by (rule banned_length)
  then have "6 \<le> length t" by (simp add: strings_ToLower_def)
  with length_le_len [of t] True show ?thesis by (simp add: len_mask)
next
  case False
  then show ?thesis by simp
qed

lemma len_Join_redact:
  "len (strings_Join (map (\<lambda>t. if strings_ToLower U t \<in> set banned then mask else t) ws) sep)
     \<le> len (strings_Join ws sep)"
proof (induction ws sep rule: strings_Join.induct)
  case (1 sep)
  show ?case by simp
next
  case (2 w sep)
  show ?case using len_redact [of U w] by simp
next
  case (3 w v vs sep)
  then show ?case using len_redact [of U w] by (simp add: len_append)
qed

lemma processWords_again:
  assumes ok: "case_table_ok U" and run: "processWords U b = Inr (out, e)"
  shows "processWords U out = Inr (out, None)"
proof -
  let ?red = "\<lambda>t. if strings_ToLower U t \<in> set banned then mask else t"
  let ?ws = "strings_Split b 0x20"
  have out: "out = strings_Join (map ?red ?ws) [0x20]"
    using run processWords_closed [OF ok, of b] by simp
  have "strings_Split out 0x20 = map ?red ?ws"
    unfolding out
    by (rule Split_Join) (auto simp add: Split_not_Nil mask_no_space dest: Split_no_sep)
  moreover have "\<And>w. strings_ToLower U (?red w) \<notin> set banned"
    by (simp add: ToLower_mask mask_not_banned)
  ultimately have "\<And>w. w \<in> set (strings_Split out 0x20) \<Longrightarrow> strings_ToLower U w \<notin> set banned"
    by (auto simp add: ToLower_mask mask_not_banned)
  then have "\<And>w. w \<in> set (strings_Split (strings_ToLower U out) 0x20) \<Longrightarrow> w \<notin> set banned"
    by (auto simp add: lowerWords_map [OF ok])
  then show ?thesis by (rule processWords_clean)
qed

lemma processWords_len:
  assumes ok: "case_table_ok U" and run: "processWords U b = Inr (out, e)"
  shows "len out \<le> len b"
proof -
  have "out = strings_Join (map (\<lambda>t. if strings_ToLower U t \<in> set banned then mask else t)
      (strings_Split b 0x20)) [0x20]"
    using run processWords_closed [OF ok, of b] by simp
  then have "len out \<le> len (strings_Join (strings_Split b 0x20) [0x20])"
    by (simp add: len_Join_redact)
  then show ?thesis by (simp add: Join_Split)
qed

section \<open>The responses of the handler\<close>

lemma chirpHandler_accepted:
  "len b \<le> 140 \<Longrightarrow> processWords U b = Inr (out, e) \<Longrightarrow>
   chirpHandler U new_ResponseWriter \<lparr>Decode = Inr \<lparr>Body = b\<rparr>\<rparr> =
     Inr \<lparr>Header = [''Content-Type'' \<mapsto> ''application/json''], statusCode = Some 200,
          written = [JSON_object [(''cleaned_body'', out)]]\<rparr>"
  by (simp add: chirpHandler_def new_ResponseWriter_def json_Marshal_cleanedReturnVals_def
      Write_def WriteHeader_def Header_Set_def)

lemma chirpHandler_rejected:
  "140 < len b \<Longrightarrow>
   chirpHandler U new_ResponseWriter \<lparr>Decode = Inr \<lparr>Body = b\<rparr>\<rparr> =
     Inr \<lparr>Header = [''Content-Type'' \<mapsto> ''application/json''], statusCode = Some 400,
          written = [JSON_object [(''error'', str ''Chirp is too long'')]]\<rparr>"
  by (simp add: chirpHandler_def new_ResponseWriter_def json_Marshal_errorReturnVals_def
      Write_def WriteHeader_def Header_Set_def)

lemma chirpHandler_panic:
  "len b \<le> 140 \<Longrightarrow> processWords U b = Inl p \<Longrightarrow>
   chirpHandler U new_ResponseWriter \<lparr>Decode = Inr \<lparr>Body = b\<rparr>\<rparr> = Inl p"
  by (simp add: chirpHandler_def)

section \<open>Evaluation on examples\<close>

lemma len_replicate: "len (replicate n r) = n * utf8_RuneLen r"
  by (induction n) (simp_all add: len_def)

lemma case_table_ok_sample: "case_table_ok sample_tables"
  by (simp add: case_table_ok_def sample_tables_def)

lemma punct_caseless_sample: "punct_caseless sample_tables"
  by (simp add: punct_caseless_def sample_tables_def)

lemmas eval_simps = processWords_def str_def strings_ToLower_def unicode_ToLower_def banned_def
  mask_def unicode_IsPunct_def ascii_punct_def len_def utf8_RuneLen_def sample_tables_def

section \<open>Clean bodies pass unchanged\<close>

lemma banned_ascii: "b \<in> set banned \<Longrightarrow> r \<in> set b \<Longrightarrow> r < 0x80"
  by (auto simp add: banned_def str_def)

text \<open>
  Claim C1, as stated, fails: the length of the spec is the number of characters, the
  guard of the handler counts bytes. The body of 71 letters U+00E9 has 71 characters and
  no banned word; it has 142 bytes, and the handler answers 400 with the error
  "Chirp is too long" instead of returning the body.
\<close>

theorem clean_body_of_71_characters_rejected:
  "utf8_RuneCountInString (replicate 71 0xE9) \<le> 140 \<and>
   set (strings_Split (strings_ToLower sample_tables (replicate 71 0xE9)) 0x20) \<inter> set banned = {} \<and>
   chirpHandler sample_tables new_ResponseWriter \<lparr>Decode = Inr \<lparr>Body = replicate 71 0xE9\<rparr>\<rparr> =
     Inr \<lparr>Header = [''Content-Type'' \<mapsto> ''application/json''], statusCode = Some 400,
          written = [JSON_object [(''error'', str ''Chirp is too long'')]]\<rparr>"
proof (intro conjI)
  show "utf8_RuneCountInString (replicate 71 0xE9) \<le> 140"
    by (simp add: utf8_RuneCountInString_def)
  have lower: "strings_ToLower sample_tables (replicate 71 0xE9) = replicate 71 0xE9"
    by (simp add: strings_ToLower_def unicode_ToLower_def sample_tables_def)
  have words: "strings_Split (replicate 71 0xE9) 0x20 = [replicate 71 0xE9]"
    by (rule Split_no_sep_word) simp
  have "replicate 71 0xE9 \<notin> set banned"
  proof
    assume "replicate 71 (0xE9 :: nat) \<in> set banned"
    then have "(0xE9 :: nat) < 0x80" by (rule banned_ascii) simp
    then show False by simp
  qed
  then show "set (strings_Split (strings_ToLower sample_tables (replicate 71 0xE9)) 0x20)
      \<inter> set banned = {}"
    by (simp add: lower words)
  have "140 < len (replicate 71 0xE9)"
    by (simp add: len_replicate utf8_RuneLen_def)
  then show "chirpHandler sample_tables new_ResponseWriter
        \<lparr>Decode = Inr \<lparr>Body = replicate 71 0xE9\<rparr>\<rparr> =
     Inr \<lparr>Header = [''Content-Type'' \<mapsto> ''application/json''], statusCode = Some 400,
          written = [JSON_object [(''error'', str ''Chirp is too long'')]]\<rparr>"
    by (rule chirpHandler_rejected)
qed

text \<open>
  Claim C1, amended. The length that counts is \<^verbatim>\<open>len\<close>, the number of bytes
  of the UTF-8 encoding. A body of at most 140 bytes, none of whose lower-cased words (the
  pieces of \<^verbatim>\<open>strings.Split(strings.ToLower(b), " ")\<close>) is a banned term, comes
  back from \<^verbatim>\<open>processWords\<close> as it is, runs of spaces and empty words
  included, with the nil error; the handler answers 200 with the body as
  \<^verbatim>\<open>cleaned_body\<close>. This holds whatever the Unicode tables are.
\<close>

theorem clean_body_unchanged:
  assumes "len b \<le> 140"
    and "\<forall>w \<in> set (strings_Split (strings_ToLower U b) 0x20). w \<notin> set banned"
  shows "processWords U b = Inr (b, None) \<and>
    chirpHandler U new_ResponseWriter \<lparr>Decode = Inr \<lparr>Body = b\<rparr>\<rparr> =
      Inr \<lparr>Header = [''Content-Type'' \<mapsto> ''application/json''], statusCode = Some 200,
           written = [JSON_object [(''cleaned_body'', b)]]\<rparr>"
proof -
  have "processWords U b = Inr (b, None)"
    using assms(2) by (intro processWords_clean) blast
  with assms(1) show ?thesis by (simp add: chirpHandler_accepted)
qed

theorem clean_body_unchanged_witness:
  "processWords sample_tables (str ''a  b   '') = Inr (str ''a  b   '', None) \<and>
   chirpHandler sample_tables new_ResponseWriter \<lparr>Decode = Inr \<lparr>Body = str ''a  b   ''\<rparr>\<rparr> =
      Inr \<lparr>Header = [''Content-Type'' \<mapsto> ''application/json''], statusCode = Some 200,
           written = [JSON_object [(''cleaned_body'', str ''a  b   '')]]\<rparr>"
proof -
  have 1: "len (str ''a  b   '') \<le> 140" by (simp add: eval_simps)
  have 2: "\<forall>w \<in> set (strings_Split (strings_ToLower sample_tables (str ''a  b   '')) 0x20). w \<notin> set banned"
    by (simp add: eval_simps)
  show ?thesis using clean_body_unchanged [OF 1 2] .
qed

section \<open>The length check\<close>

text \<open>
  Claim C2, as stated, fails: the guard \<^verbatim>\<open>len(params.Body) > 140\<close> counts
  bytes. A body of 71 letters U+00E9 has 71 characters and 142 bytes, and the handler
  answers 400 with the error "Chirp is too long".
\<close>

theorem length_check_counts_bytes:
  "utf8_RuneCountInString (replicate 71 0xE9) \<le> 140 \<and>
   chirpHandler sample_tables new_ResponseWriter \<lparr>Decode = Inr \<lparr>Body = replicate 71 0xE9\<rparr>\<rparr> =
     Inr \<lparr>Header = [''Content-Type'' \<mapsto> ''application/json''], statusCode = Some 400,
          written = [JSON_object [(''error'', str ''Chirp is too long'')]]\<rparr>"
proof -
  have "140 < len (replicate 71 0xE9)"
    by (simp add: len_replicate utf8_RuneLen_def)
  then show ?thesis
    by (simp add: chirpHandler_rejected utf8_RuneCountInString_def)
qed

text \<open>
  Claim C2, amended. The length that decides is \<^verbatim>\<open>len\<close>, the number of bytes
  of the UTF-8 encoding. A body longer than 140 bytes, and so every body of more than 140
  characters, is answered with status 400 and the object
  \<^verbatim>\<open>{"error": "Chirp is too long"}\<close>, the same for every such body and
  without a call of \<^verbatim>\<open>processWords\<close>; a body of at most 140 bytes is never
  answered so.
\<close>

theorem length_check:
  "(140 < len b \<longrightarrow>
      chirpHandler U new_ResponseWriter \<lparr>Decode = Inr \<lparr>Body = b\<rparr>\<rparr> =
        Inr \<lparr>Header = [''Content-Type'' \<mapsto> ''application/json''], statusCode = Some 400,
             written = [JSON_object [(''error'', str ''Chirp is too long'')]]\<rparr>) \<and>
   (140 < utf8_RuneCountInString b \<longrightarrow> 140 < len b) \<and>
   (len b \<le> 140 \<longrightarrow>
      chirpHandler U new_ResponseWriter \<lparr>Decode = Inr \<lparr>Body = b\<rparr>\<rparr> \<noteq>
        Inr \<lparr>Header = [''Content-Type'' \<mapsto> ''application/json''], statusCode = Some 400,
             written = [JSON_object [(''error'', str ''Chirp is too long'')]]\<rparr>)"
proof (intro conjI impI)
  assume "140 < len b"
  then show "chirpHandler U new_ResponseWriter \<lparr>Decode = Inr \<lparr>Body = b\<rparr>\<rparr> =
        Inr \<lparr>Header = [''Content-Type'' \<mapsto> ''application/json''], statusCode = Some 400,
             written = [JSON_object [(''error'', str ''Chirp is too long'')]]\<rparr>"
    by (rule chirpHandler_rejected)
next
  assume "140 < utf8_RuneCountInString b"
  with length_le_len [of b] show "140 < len b"
    by (simp add: utf8_RuneCountInString_def)
next
  assume le: "len b \<le> 140"
  show "chirpHandler U new_ResponseWriter \<lparr>Decode = Inr \<lparr>Body = b\<rparr>\<rparr> \<noteq>
        Inr \<lparr>Header = [''Content-Type'' \<mapsto> ''application/json''], statusCode = Some 400,
             written = [JSON_object [(''error'', str ''Chirp is too long'')]]\<rparr>"
  proof (cases "processWords U b")
    case (Inl p)
    with le show ?thesis by (simp add: chirpHandler_panic)
  next
    case (Inr res)
    then obtain out e where "processWords U b = Inr (out, e)" by (cases res) simp
    with le show ?thesis by (simp add: chirpHandler_accepted)
  qed
qed

theorem length_check_witness:
  "chirpHandler sample_tables new_ResponseWriter \<lparr>Decode = Inr \<lparr>Body = replicate 141 0x61\<rparr>\<rparr> =
     Inr \<lparr>Header = [''Content-Type'' \<mapsto> ''application/json''], statusCode = Some 400,
          written = [JSON_object [(''error'', str ''Chirp is too long'')]]\<rparr> \<and>
   140 < len (replicate 141 0xE9) \<and>
   chirpHandler sample_tables new_ResponseWriter \<lparr>Decode = Inr \<lparr>Body = replicate 140 0x61\<rparr>\<rparr> \<noteq>
     Inr \<lparr>Header = [''Content-Type'' \<mapsto> ''application/json''], statusCode = Some 400,
          written = [JSON_object [(''error'', str ''Chirp is too long'')]]\<rparr>"
proof -
  have 1: "140 < len (replicate 141 0x61)" by (simp add: len_replicate utf8_RuneLen_def)
  have 2: "140 < utf8_RuneCountInString (replicate 141 0xE9)" by (simp add: utf8_RuneCountInString_def)
  have 3: "len (replicate 140 0x61) \<le> 140" by (simp add: len_replicate utf8_RuneLen_def)
  show ?thesis
    using length_check [of "replicate 141 0x61" sample_tables] 
      length_check [of "replicate 141 0xE9" sample_tables]
      length_check [of "replicate 140 0x61" sample_tables] 1 2 3
    by blast
qed

section \<open>A banned word is not a failure\<close>

text \<open>
  Claim C3, as stated, fails: the length of the spec is the number of characters, the
  guard of the handler counts bytes. The body \<^verbatim>\<open>kerfuffle\<close>, a space and 66
  letters U+00E9 has 76 characters and 142 bytes: the handler answers 400 with the error
  "Chirp is too long", not 200 with a cleaned body.
\<close>

theorem flagged_body_of_76_characters_rejected:
  "utf8_RuneCountInString (str ''kerfuffle '' @ replicate 66 0xE9) \<le> 140 \<and>
   chirpHandler sample_tables new_ResponseWriter
       \<lparr>Decode = Inr \<lparr>Body = str ''kerfuffle '' @ replicate 66 0xE9\<rparr>\<rparr> =
     Inr \<lparr>Header = [''Content-Type'' \<mapsto> ''application/json''], statusCode = Some 400,
          written = [JSON_object [(''error'', str ''Chirp is too long'')]]\<rparr>"
proof
  show "utf8_RuneCountInString (str ''kerfuffle '' @ replicate 66 0xE9) \<le> 140"
    by (simp add: utf8_RuneCountInString_def str_def)
  have "len (str ''kerfuffle '') = 10"
    by (simp add: len_def str_def utf8_RuneLen_def)
  then have "140 < len (str ''kerfuffle '' @ replicate 66 0xE9)"
    by (simp add: len_append len_replicate utf8_RuneLen_def)
  then show "chirpHandler sample_tables new_ResponseWriter
       \<lparr>Decode = Inr \<lparr>Body = str ''kerfuffle '' @ replicate 66 0xE9\<rparr>\<rparr> =
     Inr \<lparr>Header = [''Content-Type'' \<mapsto> ''application/json''], statusCode = Some 400,
          written = [JSON_object [(''error'', str ''Chirp is too long'')]]\<rparr>"
    by (rule chirpHandler_rejected)
qed

text \<open>
  Claim C3, amended. The length that counts is \<^verbatim>\<open>len\<close>, the number of bytes
  of the UTF-8 encoding. For a body of at most 140 bytes \<^verbatim>\<open>processWords\<close>
  returns (it does not panic), with the redacted body and with the error that tells
  whether a word was banned; whatever that error is, the handler answers 200 with the
  redacted body as \<^verbatim>\<open>cleaned_body\<close>.
\<close>

theorem banned_word_is_no_failure:
  assumes "case_table_ok U" and "len b \<le> 140"
  shows "\<exists>out e. processWords U b = Inr (out, e) \<and>
    (e \<noteq> None) = (\<exists>t \<in> set (strings_Split b 0x20). strings_ToLower U t \<in> set banned) \<and>
    chirpHandler U new_ResponseWriter \<lparr>Decode = Inr \<lparr>Body = b\<rparr>\<rparr> =
      Inr \<lparr>Header = [''Content-Type'' \<mapsto> ''application/json''], statusCode = Some 200,
           written = [JSON_object [(''cleaned_body'', out)]]\<rparr>"
  using processWords_closed [OF assms(1), of b] assms(2)
  by (simp add: chirpHandler_accepted)

theorem banned_word_is_no_failure_witness:
  "processWords sample_tables (str ''This is a kerfuffle opinion I need to share with the world'') =
     Inr (str ''This is a **** opinion I need to share with the world'',
          Some (errors_New ''Bad word found in text'')) \<and>
   chirpHandler sample_tables new_ResponseWriter
       \<lparr>Decode = Inr \<lparr>Body = str ''This is a kerfuffle opinion I need to share with the world''\<rparr>\<rparr> =
     Inr \<lparr>Header = [''Content-Type'' \<mapsto> ''application/json''], statusCode = Some 200,
          written = [JSON_object
            [(''cleaned_body'', str ''This is a **** opinion I need to share with the world'')]]\<rparr>"
proof -
  let ?b = "str ''This is a kerfuffle opinion I need to share with the world''"
  have 1: "len ?b \<le> 140" by (simp add: eval_simps)
  have 2: "processWords sample_tables ?b =
     Inr (str ''This is a **** opinion I need to share with the world'',
          Some (errors_New ''Bad word found in text''))"
    by (simp add: eval_simps)
  show ?thesis
    using banned_word_is_no_failure [OF case_table_ok_sample 1] 2 by auto
qed

section \<open>Punctuation\<close>

lemma hasPunctuation_iff: "hasPunctuation U s = (\<exists>r \<in> set s. unicode_IsPunct U r)"
  by (induction s) auto

lemma hasPunctuation_inner:
  "hasPunctuation U word \<Longrightarrow> processWords_inner U i word bs st = Inr st"
  by (cases st) (simp add: inner_closed)

lemma IsPunct_ToLower:
  assumes "punct_caseless U" and "unicode_IsPunct U r"
  shows "unicode_ToLower U r = r"
proof (cases "r \<le> 0x7F")
  case True
  with assms(2) have "r \<in> set ascii_punct" by (simp add: unicode_IsPunct_def)
  then have "\<not> (0x41 \<le> r \<and> r \<le> 0x5A)" by (auto simp add: ascii_punct_def)
  with True show ?thesis by (simp add: unicode_ToLower_def)
next
  case False
  with assms show ?thesis
    by (simp add: unicode_IsPunct_def unicode_ToLower_def punct_caseless_def)
qed

lemma hasPunctuation_ToLower:
  assumes "punct_caseless U" and "hasPunctuation U t"
  shows "hasPunctuation U (strings_ToLower U t)"
proof -
  from assms(2) obtain r where r: "r \<in> set t" "unicode_IsPunct U r"
    by (auto simp add: hasPunctuation_iff)
  then have "unicode_ToLower U r \<in> set (strings_ToLower U t)"
    by (simp add: strings_ToLower_def)
  with r(2) IsPunct_ToLower [OF assms(1) r(2)] show ?thesis
    by (auto simp add: hasPunctuation_iff)
qed

lemma processWords_words:
  assumes ok: "case_table_ok U" and run: "processWords U b = Inr (out, e)"
  shows "strings_Split out 0x20 =
    map (\<lambda>t. if strings_ToLower U t \<in> set banned then mask else t) (strings_Split b 0x20)"
proof -
  have "out = strings_Join (map (\<lambda>t. if strings_ToLower U t \<in> set banned then mask else t)
      (strings_Split b 0x20)) [0x20]"
    using run processWords_closed [OF ok, of b] by simp
  then show ?thesis
    by (simp only:) (rule Split_Join, auto simp add: Split_not_Nil mask_no_space dest: Split_no_sep)
qed

text \<open>
  Claim C4. A word with a punctuation character is never replaced. The test
  \<^verbatim>\<open>!hasPunctuation(word)\<close> sees the lower-cased word: when it has punctuation, the
  inner loop leaves the slice and the flag as they are, whatever the banned list; since
  punctuation has no case, this is so whenever the word of the body has punctuation. Every
  such word stands unchanged at its place in the result. The body
  \<^verbatim>\<open>kerfuffle!\<close> comes back unchanged with the nil error, the body
  \<^verbatim>\<open>kerfuffle\<close> comes back as \<^verbatim>\<open>****\<close> with the error.
\<close>

theorem punctuation_is_never_banned:
  assumes "case_table_ok U" and "punct_caseless U"
  shows "(hasPunctuation U word \<longrightarrow> processWords_inner U i word bs st = Inr st) \<and>
    (hasPunctuation U t \<longrightarrow> hasPunctuation U (strings_ToLower U t)) \<and>
    (\<exists>out e. processWords U b = Inr (out, e) \<and>
       length (strings_Split out 0x20) = length (strings_Split b 0x20) \<and>
       (\<forall>j < length (strings_Split b 0x20).
          hasPunctuation U (strings_Split b 0x20 ! j) \<longrightarrow>
          strings_Split out 0x20 ! j = strings_Split b 0x20 ! j)) \<and>
    processWords U (str ''kerfuffle!'') = Inr (str ''kerfuffle!'', None) \<and>
    processWords U (str ''kerfuffle'') =
      Inr (str ''****'', Some (errors_New ''Bad word found in text''))"
proof (intro conjI)
  show "hasPunctuation U word \<longrightarrow> processWords_inner U i word bs st = Inr st"
    by (simp add: hasPunctuation_inner)
  show "hasPunctuation U t \<longrightarrow> hasPunctuation U (strings_ToLower U t)"
    using assms(2) by (simp add: hasPunctuation_ToLower)
  show "\<exists>out e. processWords U b = Inr (out, e) \<and>
       length (strings_Split out 0x20) = length (strings_Split b 0x20) \<and>
       (\<forall>j < length (strings_Split b 0x20).
          hasPunctuation U (strings_Split b 0x20 ! j) \<longrightarrow>
          strings_Split out 0x20 ! j = strings_Split b 0x20 ! j)"
  proof -
    obtain out e where run: "processWords U b = Inr (out, e)"
      using processWords_closed [OF assms(1), of b] by simp
    note ws = processWords_words [OF assms(1) run]
    have "strings_Split out 0x20 ! j = strings_Split b 0x20 ! j"
      if "j < length (strings_Split b 0x20)" "hasPunctuation U (strings_Split b 0x20 ! j)" for j
    proof -
      from that(2) have "hasPunctuation U (strings_ToLower U (strings_Split b 0x20 ! j))"
        by (rule hasPunctuation_ToLower [OF assms(2)])
      then have "strings_ToLower U (strings_Split b 0x20 ! j) \<notin> set banned"
        using banned_no_punct by blast
      with that(1) show ?thesis by (simp add: ws)
    qed
    with run ws show ?thesis by simp
  qed
  show "processWords U (str ''kerfuffle!'') = Inr (str ''kerfuffle!'', None)"
    by (simp add: eval_simps)
  show "processWords U (str ''kerfuffle'') =
      Inr (str ''****'', Some (errors_New ''Bad word found in text''))"
    by (simp add: eval_simps)
qed

theorem punctuation_is_never_banned_witness:
  "processWords_inner sample_tables 0 (str ''fornax.'') [str ''fornax.''] ([str ''Fornax.''], False) =
     Inr ([str ''Fornax.''], False) \<and>
   hasPunctuation sample_tables (strings_ToLower sample_tables (0xA1 # str ''SHARBERT'')) \<and>
   (\<exists>out e. processWords sample_tables (str ''fornax Kerfuffle, sharbert'') = Inr (out, e) \<and>
      strings_Split out 0x20 ! 1 = str ''Kerfuffle,'') \<and>
   processWords sample_tables (str ''kerfuffle!'') = Inr (str ''kerfuffle!'', None) \<and>
   processWords sample_tables (str ''kerfuffle'') =
      Inr (str ''****'', Some (errors_New ''Bad word found in text''))"
proof -
  have 1: "hasPunctuation sample_tables (str ''fornax.'')" by (simp add: eval_simps)
  have 2: "hasPunctuation sample_tables (0xA1 # str ''SHARBERT'')" by (simp add: eval_simps)
  have 3: "strings_Split (str ''fornax Kerfuffle, sharbert'') 0x20 =
     [str ''fornax'', str ''Kerfuffle,'', str ''sharbert'']" by (simp add: str_def)
  have 4: "hasPunctuation sample_tables (str ''Kerfuffle,'')" by (simp add: eval_simps)
  show ?thesis
    using punctuation_is_never_banned [OF case_table_ok_sample punct_caseless_sample,
        of "str ''fornax.''" 0 "[str ''fornax.'']" "([str ''Fornax.''], False)"
           "0xA1 # str ''SHARBERT''" "str ''fornax Kerfuffle, sharbert''"] 1 2 4
    unfolding 3 by auto
qed

section \<open>Matching without regard to case\<close>

text \<open>
  Claim C5. The decision on a word is taken on its lower case, by equality with a banned
  term: the result of \<^verbatim>\<open>processWords\<close> is the body with exactly those words
  replaced by \<^verbatim>\<open>****\<close> whose lower case is a banned term, every other word as
  it was written, and the error is set exactly when there is such a word. The body
  \<^verbatim>\<open>KerFuffle\<close> comes back as \<^verbatim>\<open>****\<close> with the error.
\<close>

theorem matching_ignores_case:
  assumes "case_table_ok U"
  shows "processWords U b =
      Inr (strings_Join
             (map (\<lambda>t. if strings_ToLower U t \<in> set banned then mask else t)
                (strings_Split b 0x20)) [0x20],
           if \<exists>t \<in> set (strings_Split b 0x20). strings_ToLower U t \<in> set banned
           then Some (errors_New ''Bad word found in text'') else None) \<and>
    processWords U (str ''KerFuffle'') =
      Inr (str ''****'', Some (errors_New ''Bad word found in text''))"
proof
  show "processWords U b =
      Inr (strings_Join
             (map (\<lambda>t. if strings_ToLower U t \<in> set banned then mask else t)
                (strings_Split b 0x20)) [0x20],
           if \<exists>t \<in> set (strings_Split b 0x20). strings_ToLower U t \<in> set banned
           then Some (errors_New ''Bad word found in text'') else None)"
    using assms by (rule processWords_closed)
  show "processWords U (str ''KerFuffle'') =
      Inr (str ''****'', Some (errors_New ''Bad word found in text''))"
    by (simp add: eval_simps)
qed

text \<open>
  In the example the third word begins with the Kelvin sign U+212A, whose lower case is
  the letter k: it is replaced too. The second word is no banned term and keeps its
  capitals.
\<close>

theorem matching_ignores_case_witness:
  "processWords sample_tables (str ''KerFuffle SharBerts '' @ 0x212A # str ''ERFUFFLE'') =
     Inr (str ''**** SharBerts ****'', Some (errors_New ''Bad word found in text'')) \<and>
   processWords sample_tables (str ''KerFuffle'') =
     Inr (str ''****'', Some (errors_New ''Bad word found in text''))"
  using matching_ignores_case [OF case_table_ok_sample,
      of "str ''KerFuffle SharBerts '' @ 0x212A # str ''ERFUFFLE''"]
  by (simp add: str_def strings_ToLower_def unicode_ToLower_def banned_def mask_def
      sample_tables_def)

section \<open>Moderating twice\<close>

text \<open>
  Claim C6. When a body of at most 140 bytes has been moderated, the redacted body is
  again of at most 140 bytes, and moderating it once more returns it unchanged with the
  nil error; the handler answers the redacted body as it answered the body.
\<close>

theorem moderation_idempotent:
  assumes "case_table_ok U" and "len b \<le> 140"
  shows "\<exists>out e. processWords U b = Inr (out, e) \<and>
    len out \<le> 140 \<and>
    processWords U out = Inr (out, None) \<and>
    chirpHandler U new_ResponseWriter \<lparr>Decode = Inr \<lparr>Body = out\<rparr>\<rparr> =
      chirpHandler U new_ResponseWriter \<lparr>Decode = Inr \<lparr>Body = b\<rparr>\<rparr>"
proof -
  obtain out e where run: "processWords U b = Inr (out, e)"
    using processWords_closed [OF assms(1), of b] by simp
  have again: "processWords U out = Inr (out, None)"
    using assms(1) run by (rule processWords_again)
  have "len out \<le> len b"
    using assms(1) run by (rule processWords_len)
  with assms(2) have le: "len out \<le> 140" by simp
  have "chirpHandler U new_ResponseWriter \<lparr>Decode = Inr \<lparr>Body = out\<rparr>\<rparr> =
      chirpHandler U new_ResponseWriter \<lparr>Decode = Inr \<lparr>Body = b\<rparr>\<rparr>"
    by (simp add: chirpHandler_accepted [OF le again] chirpHandler_accepted [OF assms(2) run])
  with run again le show ?thesis by blast
qed

theorem moderation_idempotent_witness:
  "processWords sample_tables (str ''a KERFUFFLE  fornax! Sharbert'') =
     Inr (str ''a ****  fornax! ****'', Some (errors_New ''Bad word found in text'')) \<and>
   processWords sample_tables (str ''a ****  fornax! ****'') =
     Inr (str ''a ****  fornax! ****'', None) \<and>
   chirpHandler sample_tables new_ResponseWriter
       \<lparr>Decode = Inr \<lparr>Body = str ''a ****  fornax! ****''\<rparr>\<rparr> =
     chirpHandler sample_tables new_ResponseWriter
       \<lparr>Decode = Inr \<lparr>Body = str ''a KERFUFFLE  fornax! Sharbert''\<rparr>\<rparr>"
proof -
  let ?b = "str ''a KERFUFFLE  fornax! Sharbert''"
  have 1: "len ?b \<le> 140" by (simp add: eval_simps)
  have 2: "processWords sample_tables ?b =
     Inr (str ''a ****  fornax! ****'', Some (errors_New ''Bad word found in text''))"
    by (simp add: eval_simps)
  show ?thesis
    using moderation_idempotent [OF case_table_ok_sample 1] unfolding 2 by auto
qed

section \<open>The middleware counts, then delegates\<close>

text \<open>
  Claim C7. A call of the handler that \<^verbatim>\<open>middlewareMetricsInc\<close> returns is
  one call of the wrapped handler, with the same writer and request, on the configuration
  whose counter has been incremented by one; its outcome, whatever it is, is the outcome
  of the call. The incremented counter differs from the counter before (the 32-bit counter
  wraps around), and when the wrapped handler leaves the counter alone, the counter after
  the call is the counter before plus one.
\<close>

theorem middleware_counts_then_delegates:
  "middlewareMetricsInc next w r cfg =
     next w r (cfg\<lparr>fileserverHits := fileserverHits cfg + 1\<rparr>) \<and>
   fileserverHits cfg + 1 \<noteq> fileserverHits cfg \<and>
   ((\<forall>c. fileserverHits (snd (handler w r c)) = fileserverHits c) \<longrightarrow>
      fileserverHits (snd (middlewareMetricsInc handler w r cfg)) = fileserverHits cfg + 1)"
  by (simp add: middlewareMetricsInc_def atomic_Int32_Add_def)

text \<open>
  A wrapped handler that reports the counter it finds sees 42 when the counter was 41; a
  wrapped handler that panics makes the wrapper panic; the counter wraps from the largest
  to the smallest 32-bit integer.
\<close>

theorem middleware_counts_then_delegates_witness:
  "middlewareMetricsInc (\<lambda>w r c. (fileserverHits c, w, r))
       new_ResponseWriter \<lparr>Decode = Inr \<lparr>Body = str ''hello''\<rparr>\<rparr>
       \<lparr>fileserverHits = 41, platform = str ''dev''\<rparr> =
     (42, new_ResponseWriter, \<lparr>Decode = Inr \<lparr>Body = str ''hello''\<rparr>\<rparr>) \<and>
   middlewareMetricsInc (\<lambda>w r c. Inl (IndexOutOfRange 1 1) :: panic + http_ResponseWriter)
       new_ResponseWriter \<lparr>Decode = Inr \<lparr>Body = str ''hello''\<rparr>\<rparr>
       \<lparr>fileserverHits = 41, platform = str ''dev''\<rparr> = Inl (IndexOutOfRange 1 1) \<and>
   sint (fileserverHits (snd (middlewareMetricsInc (\<lambda>w r c. (WriteHeader 200 w, c))
       new_ResponseWriter \<lparr>Decode = Inr \<lparr>Body = str ''hello''\<rparr>\<rparr>
       \<lparr>fileserverHits = 0x7FFFFFFF, platform = str ''dev''\<rparr>))) = - 2147483648"
proof -
  have 1: "\<forall>c. fileserverHits (snd ((\<lambda>w r c. (WriteHeader 200 w, c)) new_ResponseWriter
      \<lparr>Decode = Inr \<lparr>Body = str ''hello''\<rparr>\<rparr> c)) = fileserverHits c"
    by simp
  show ?thesis
    using middleware_counts_then_delegates [of "\<lambda>w r c. (fileserverHits c, w, r)"
        new_ResponseWriter "\<lparr>Decode = Inr \<lparr>Body = str ''hello''\<rparr>\<rparr>"
        "\<lparr>fileserverHits = 41, platform = str ''dev''\<rparr>" "\<lambda>w r c. (WriteHeader 200 w, c)"]
      middleware_counts_then_delegates [of
        "\<lambda>w r c. Inl (IndexOutOfRange 1 1) :: panic + http_ResponseWriter"
        new_ResponseWriter "\<lparr>Decode = Inr \<lparr>Body = str ''hello''\<rparr>\<rparr>"
        "\<lparr>fileserverHits = 41, platform = str ''dev''\<rparr>" "\<lambda>w r c. (WriteHeader 200 w, c)"]
      middleware_counts_then_delegates [of "\<lambda>w r c. (fileserverHits c, w, r)"
        new_ResponseWriter "\<lparr>Decode = Inr \<lparr>Body = str ''hello''\<rparr>\<rparr>"
        "\<lparr>fileserverHits = 0x7FFFFFFF, platform = str ''dev''\<rparr>"
        "\<lambda>w r c. (WriteHeader 200 w, c)"] 1
    by simp
qed

section \<open>The error of the word filter and what the client sees\<close>

lemma redact_fixed:
  "((if strings_ToLower U t \<in> set banned then mask else t) = t) =
     (strings_ToLower U t \<notin> set banned)"
  using ToLower_mask [of U] mask_not_banned by auto

lemma redact_all_fixed:
  "(map (\<lambda>t. if strings_ToLower U t \<in> set banned then mask else t) ws = ws) =
     (\<forall>t \<in> set ws. strings_ToLower U t \<notin> set banned)"
  using redact_fixed [of U] by (induction ws) auto

text \<open>
  Claim C8. \<^verbatim>\<open>processWords\<close> returns a non-nil error exactly when a word was
  replaced, that is, when the words of the result are not the words of the input. The
  handler drops the error: for a body of at most 140 bytes the answer is 200 with an
  object of the one field \<^verbatim>\<open>cleaned_body\<close>, and two bodies with the same
  redacted text get the same answer, whatever their errors.
\<close>

theorem error_is_flag_and_is_dropped:
  assumes "case_table_ok U"
  shows "\<exists>out e. processWords U b = Inr (out, e) \<and>
    (e \<noteq> None) = (strings_Split out 0x20 \<noteq> strings_Split b 0x20) \<and>
    (e \<noteq> None) = (out \<noteq> b) \<and>
    (len b \<le> 140 \<longrightarrow>
       chirpHandler U new_ResponseWriter \<lparr>Decode = Inr \<lparr>Body = b\<rparr>\<rparr> =
         Inr \<lparr>Header = [''Content-Type'' \<mapsto> ''application/json''], statusCode = Some 200,
              written = [JSON_object [(''cleaned_body'', out)]]\<rparr> \<and>
       (\<forall>b' e'. len b' \<le> 140 \<and> processWords U b' = Inr (out, e') \<longrightarrow>
          chirpHandler U new_ResponseWriter \<lparr>Decode = Inr \<lparr>Body = b'\<rparr>\<rparr> =
          chirpHandler U new_ResponseWriter \<lparr>Decode = Inr \<lparr>Body = b\<rparr>\<rparr>))"
proof -
  let ?flag = "\<exists>t \<in> set (strings_Split b 0x20). strings_ToLower U t \<in> set banned"
  obtain out e where run: "processWords U b = Inr (out, e)" and e: "(e \<noteq> None) = ?flag"
    using processWords_closed [OF assms, of b] by simp
  have ws: "strings_Split out 0x20 =
      map (\<lambda>t. if strings_ToLower U t \<in> set banned then mask else t) (strings_Split b 0x20)"
    using assms run by (rule processWords_words)
  have words: "(e \<noteq> None) = (strings_Split out 0x20 \<noteq> strings_Split b 0x20)"
    unfolding e ws redact_all_fixed by blast
  have body: "(e \<noteq> None) = (out \<noteq> b)"
  proof (cases "out = b")
    case True
    with words show ?thesis by simp
  next
    case False
    have "strings_Split out 0x20 \<noteq> strings_Split b 0x20"
    proof
      assume "strings_Split out 0x20 = strings_Split b 0x20"
      then have "strings_Join (strings_Split out 0x20) [0x20] =
          strings_Join (strings_Split b 0x20) [0x20]" by simp
      with False show False by (simp only: Join_Split)
    qed
    with words False show ?thesis by simp
  qed
  have same: "chirpHandler U new_ResponseWriter \<lparr>Decode = Inr \<lparr>Body = b'\<rparr>\<rparr> =
          chirpHandler U new_ResponseWriter \<lparr>Decode = Inr \<lparr>Body = b\<rparr>\<rparr>"
    if "len b \<le> 140" "len b' \<le> 140" "processWords U b' = Inr (out, e')" for b' e'
    using that run by (simp add: chirpHandler_accepted)
  have answer: "chirpHandler U new_ResponseWriter \<lparr>Decode = Inr \<lparr>Body = b\<rparr>\<rparr> =
         Inr \<lparr>Header = [''Content-Type'' \<mapsto> ''application/json''], statusCode = Some 200,
              written = [JSON_object [(''cleaned_body'', out)]]\<rparr>"
    if "len b \<le> 140"
    using that run by (rule chirpHandler_accepted)
  show ?thesis
  proof (intro exI [of _ out] exI [of _ e] conjI impI allI)
    show "processWords U b = Inr (out, e)" by (rule run)
    show "(e \<noteq> None) = (strings_Split out 0x20 \<noteq> strings_Split b 0x20)" by (rule words)
    show "(e \<noteq> None) = (out \<noteq> b)" by (rule body)
    show "chirpHandler U new_ResponseWriter \<lparr>Decode = Inr \<lparr>Body = b\<rparr>\<rparr> =
         Inr \<lparr>Header = [''Content-Type'' \<mapsto> ''application/json''], statusCode = Some 200,
              written = [JSON_object [(''cleaned_body'', out)]]\<rparr>"
      if "len b \<le> 140" using that by (rule answer)
    show "chirpHandler U new_ResponseWriter \<lparr>Decode = Inr \<lparr>Body = b'\<rparr>\<rparr> =
          chirpHandler U new_ResponseWriter \<lparr>Decode = Inr \<lparr>Body = b\<rparr>\<rparr>"
      if "len b \<le> 140" "len b' \<le> 140 \<and> processWords U b' = Inr (out, e')" for b' e'
      using that same by blast
  qed
qed

text \<open>
  The body \<^verbatim>\<open>fornax\<close> is flagged, the body \<^verbatim>\<open>****\<close> is not; the
  client gets the same answer to both.
\<close>

theorem error_is_flag_and_is_dropped_witness:
  "processWords sample_tables (str ''fornax'') =
     Inr (str ''****'', Some (errors_New ''Bad word found in text'')) \<and>
   processWords sample_tables (str ''****'') = Inr (str ''****'', None) \<and>
   chirpHandler sample_tables new_ResponseWriter \<lparr>Decode = Inr \<lparr>Body = str ''fornax''\<rparr>\<rparr> =
     Inr \<lparr>Header = [''Content-Type'' \<mapsto> ''application/json''], statusCode = Some 200,
          written = [JSON_object [(''cleaned_body'', str ''****'')]]\<rparr> \<and>
   chirpHandler sample_tables new_ResponseWriter \<lparr>Decode = Inr \<lparr>Body = str ''****''\<rparr>\<rparr> =
     chirpHandler sample_tables new_ResponseWriter \<lparr>Decode = Inr \<lparr>Body = str ''fornax''\<rparr>\<rparr>"
proof -
  have 1: "processWords sample_tables (str ''fornax'') =
     Inr (str ''****'', Some (errors_New ''Bad word found in text''))"
    by (simp add: eval_simps)
  have 2: "processWords sample_tables (str ''****'') = Inr (str ''****'', None)"
    by (simp add: eval_simps)
  have 3: "len (str ''fornax'') \<le> 140" "len (str ''****'') \<le> 140"
    by (simp_all add: eval_simps)
  from error_is_flag_and_is_dropped [OF case_table_ok_sample, of "str ''fornax''"]
  obtain out e where
    run: "processWords sample_tables (str ''fornax'') = Inr (out, e)" and
    rest: "len (str ''fornax'') \<le> 140 \<longrightarrow>
       chirpHandler sample_tables new_ResponseWriter \<lparr>Decode = Inr \<lparr>Body = str ''fornax''\<rparr>\<rparr> =
         Inr \<lparr>Header = [''Content-Type'' \<mapsto> ''application/json''], statusCode = Some 200,
              written = [JSON_object [(''cleaned_body'', out)]]\<rparr> \<and>
       (\<forall>b' e'. len b' \<le> 140 \<and> processWords sample_tables b' = Inr (out, e') \<longrightarrow>
          chirpHandler sample_tables new_ResponseWriter \<lparr>Decode = Inr \<lparr>Body = b'\<rparr>\<rparr> =
          chirpHandler sample_tables new_ResponseWriter \<lparr>Decode = Inr \<lparr>Body = str ''fornax''\<rparr>\<rparr>)"
    by blast
  from run 1 have out: "out = str ''****''" by simp
  from rest 3(1) have a: "chirpHandler sample_tables new_ResponseWriter
        \<lparr>Decode = Inr \<lparr>Body = str ''fornax''\<rparr>\<rparr> =
      Inr \<lparr>Header = [''Content-Type'' \<mapsto> ''application/json''], statusCode = Some 200,
           written = [JSON_object [(''cleaned_body'', str ''****'')]]\<rparr>"
    unfolding out by blast
  from rest 3 2 have b: "chirpHandler sample_tables new_ResponseWriter
        \<lparr>Decode = Inr \<lparr>Body = str ''****''\<rparr>\<rparr> =
      chirpHandler sample_tables new_ResponseWriter \<lparr>Decode = Inr \<lparr>Body = str ''fornax''\<rparr>\<rparr>"
    unfolding out by blast
  from 1 2 a b show ?thesis by (intro conjI)
qed

section \<open>The punctuation guard is dead code\<close>

text \<open>
  Claim C9. No banned term has a punctuation character, so where the comparison
  \<^verbatim>\<open>banned == word\<close> succeeds the test \<^verbatim>\<open>!hasPunctuation(word)\<close>
  succeeds too: the inner loop over the banned list, and with it
  \<^verbatim>\<open>processWords\<close>, computes what it computes without the test, on every input
  and for all Unicode tables.
\<close>

theorem punctuation_guard_never_fires:
  "(b \<in> set banned \<longrightarrow> \<not> hasPunctuation U b) \<and>
   processWords_inner U i word banned st = unguarded_inner i word banned st \<and>
   processWords U input = processWords_unguarded U input"
  by (simp add: banned_no_punct inner_unguarded processWords_unguarded_eq)

theorem punctuation_guard_never_fires_witness:
  "\<not> hasPunctuation sample_tables (str ''sharbert'') \<and>
   processWords_inner sample_tables 0 (str ''sharbert'') banned ([str ''Sharbert''], False) =
     unguarded_inner 0 (str ''sharbert'') banned ([str ''Sharbert''], False) \<and>
   processWords sample_tables (str ''Sharbert sharbert! fornax'') =
     processWords_unguarded sample_tables (str ''Sharbert sharbert! fornax'')"
proof -
  have "str ''sharbert'' \<in> set banned" by (simp add: banned_def)
  then show ?thesis
    using punctuation_guard_never_fires [of "str ''sharbert''" sample_tables 0 "str ''sharbert''"
        "([str ''Sharbert''], False)" "str ''Sharbert sharbert! fornax''"]
    by blast
qed

section \<open>Two calls of the word filter\<close>





end
